theory Spec2Isabelle
  imports
    Main
    "HOL-Library.Word"
    "HOL-Library.Char_ord"
    "HOL-Library.List_Lexorder"
    "HOL-Library.Product_Lexorder"
    "HOL-Library.Multiset"
begin

unbundle bit_operations_syntax

section \<open>Receipts of the SlowDrip miner: digest, signing, Merkle anchor, QoS aggregation\<close>

text \<open>
  The development embeds \<^verbatim>\<open>internal/receipts/signer.go\<close> (package \<^verbatim>\<open>receipts\<close>) and
  \<^verbatim>\<open>internal/service/agent.go\<close> (package \<^verbatim>\<open>service\<close>).

  Go values are modelled as follows.
  \<^item> \<^verbatim>\<open>byte\<close>/\<^verbatim>\<open>uint8\<close> is \<open>8 word\<close>, \<^verbatim>\<open>uint16\<close> is \<open>16 word\<close>, \<^verbatim>\<open>uint64\<close> is \<open>64 word\<close>.
    \<^verbatim>\<open>int64\<close> is the same 64-bit pattern, read in two's complement by \<open>sint\<close>; the
    conversion \<^verbatim>\<open>uint64(v)\<close> keeps the bits.
  \<^item> A Go \<^verbatim>\<open>string\<close> is a sequence of bytes: \<open>string\<close> (a list of 8-bit characters);
    \<^verbatim>\<open>[]byte(s)\<close> is \<open>bytes_of s\<close>; \<^verbatim>\<open><\<close> on strings is the bytewise lexicographic order.
  \<^item> A slice is a list. A slice that the code tests against \<^verbatim>\<open>nil\<close> is an \<open>option\<close>. The two
    slices that \<^verbatim>\<open>Sign\<close> appends to in place are, in addition, windows on the arrays of a heap.
  \<^item> A returned \<^verbatim>\<open>error\<close> is an \<open>error option\<close> (\<open>None\<close> is \<^verbatim>\<open>nil\<close>) or the left summand of a
    sum; a run-time panic is an error value too.
  \<^item> The functions of the Go standard library that the code calls (SHA-256, Ed25519,
    \<^verbatim>\<open>sort.Slice\<close>) are not part of the repository: they are parameters of the model.
\<close>

type_synonym byte = "8 word"
type_synonym bytes = "byte list"
type_synonym uint16 = "16 word"
type_synonym uint64 = "64 word"
type_synonym int64 = "64 word"

datatype error = Err string | Panic string

definition bytes_of :: "string \<Rightarrow> bytes" where
  "bytes_of s = map of_char s"

text \<open>The built-in \<^verbatim>\<open>copy(dst, src)\<close>: copies \<open>min (len dst) (len src)\<close> elements; returns \<open>dst\<close> updated.\<close>

definition copy_into :: "'a list \<Rightarrow> 'a list \<Rightarrow> 'a list" where
  "copy_into dst src = take (length dst) src @ drop (length src) dst"

subsection \<open>The streaming hash interface\<close>

text \<open>
  \<^verbatim>\<open>h := sha256.New()\<close>, \<^verbatim>\<open>h.Write(p)\<close>, \<^verbatim>\<open>h.Sum(nil)\<close>: the state of a hasher is the sequence of
  bytes written so far, and \<^verbatim>\<open>Sum(nil)\<close> is the hash function \<open>H\<close> of that sequence.
\<close>

type_synonym hash_fn = "bytes \<Rightarrow> bytes"
type_synonym hasher = bytes

definition sha256_New :: hasher where
  "sha256_New = []"

definition Write :: "hasher \<Rightarrow> bytes \<Rightarrow> hasher" where
  "Write h p = h @ p"

definition Sum_nil :: "hash_fn \<Rightarrow> hasher \<Rightarrow> bytes" where
  "Sum_nil H h = H h"

subsection \<open>Receipts\<close>

definition ReceiptVersion :: byte where
  "ReceiptVersion = 1"

definition DomainTag :: string where
  "DomainTag = ''SlowDrip:PoS-Receipt:v1''"

record Receipt =
  Version :: byte
  Path :: string
  Seq :: uint64
  Size :: int64
  Deadline :: int64
  Recv :: int64
  Commit :: bytes
  Nonce :: uint64
  PubKey :: bytes
  Sig :: bytes

text \<open>
  \<^verbatim>\<open>Commit\<close> has the Go type \<^verbatim>\<open>[32]byte\<close>; a receipt is well formed when its commitment
  has that length.
\<close>

definition wf_Receipt :: "Receipt \<Rightarrow> bool" where
  "wf_Receipt r \<longleftrightarrow> length (Commit r) = 32"

subsection \<open>Big-endian encoders\<close>

text \<open>
  \<^verbatim>\<open>putU64(b, v)\<close> writes the eight bytes of \<open>v\<close> into \<open>b[0..7]\<close>, most significant first.
  Its bounds check \<^verbatim>\<open>_ = b[:8]\<close> passes at every call of the repository, where \<open>b\<close> is a
  slice of a \<^verbatim>\<open>[8]byte\<close> array; the model returns the updated buffer.
\<close>

definition putU64 :: "bytes \<Rightarrow> uint64 \<Rightarrow> bytes" where
  "putU64 b v = b
     [0 := ucast (drop_bit 56 v),
      1 := ucast (drop_bit 48 v),
      2 := ucast (drop_bit 40 v),
      3 := ucast (drop_bit 32 v),
      4 := ucast (drop_bit 24 v),
      5 := ucast (drop_bit 16 v),
      6 := ucast (drop_bit 8 v),
      7 := ucast v]"

definition putI64 :: "bytes \<Rightarrow> int64 \<Rightarrow> bytes" where
  "putI64 b v = putU64 b v"

text \<open>\<^verbatim>\<open>binary.BigEndian.PutUint16(b, v)\<close> of the standard library, on a two-byte buffer.\<close>

definition PutUint16 :: "bytes \<Rightarrow> uint16 \<Rightarrow> bytes" where
  "PutUint16 b v = b[0 := ucast (drop_bit 8 v), 1 := ucast v]"

text \<open>The eight, respectively two, bytes of a value in network order.\<close>

definition be64 :: "uint64 \<Rightarrow> bytes" where
  "be64 v =
     [ucast (drop_bit 56 v), ucast (drop_bit 48 v), ucast (drop_bit 40 v),
      ucast (drop_bit 32 v), ucast (drop_bit 24 v), ucast (drop_bit 16 v),
      ucast (drop_bit 8 v), ucast v]"

definition be16 :: "uint16 \<Rightarrow> bytes" where
  "be16 v = [ucast (drop_bit 8 v), ucast v]"

subsection \<open>The canonical digest\<close>

text \<open>
  \<^verbatim>\<open>func digest(r Receipt) [32]byte\<close>, statement by statement: \<open>digest_hasher\<close> is the
  hasher \<open>h\<close> after the last \<^verbatim>\<open>Write\<close>, and \<open>digest\<close> copies \<^verbatim>\<open>h.Sum(nil)\<close> into the
  zeroed array \<^verbatim>\<open>out\<close>. The buffer \<open>b8\<close> is reused for the five integers as in the source.
\<close>

definition digest_hasher :: "Receipt \<Rightarrow> hasher" where
  "digest_hasher r =
    (let h = sha256_New;
         h = Write h (bytes_of DomainTag);
         h = Write h [Version r];
         pathBytes = bytes_of (Path r);
         lb = PutUint16 (replicate 2 0) (word_of_nat (length pathBytes));
         h = Write h lb;
         h = Write h pathBytes;
         b8 = putU64 (replicate 8 0) (Seq r);
         h = Write h b8;
         b8 = putI64 b8 (Size r);
         h = Write h b8;
         b8 = putI64 b8 (Deadline r);
         h = Write h b8;
         b8 = putI64 b8 (Recv r);
         h = Write h b8;
         h = Write h (Commit r);
         b8 = putU64 b8 (Nonce r);
         h = Write h b8
     in h)"

definition digest :: "hash_fn \<Rightarrow> Receipt \<Rightarrow> bytes" where
  "digest H r = copy_into (replicate 32 0) (Sum_nil H (digest_hasher r))"

text \<open>
  The layout as the specification words it: tag, version byte, 16-bit length of the path and
  the path, sequence number, size, deadline, receive time, commitment, nonce.
\<close>

definition preimage :: "Receipt \<Rightarrow> bytes" where
  "preimage r =
     bytes_of DomainTag @ [Version r]
     @ be16 (word_of_nat (length (bytes_of (Path r)))) @ bytes_of (Path r)
     @ be64 (Seq r) @ be64 (Size r) @ be64 (Deadline r) @ be64 (Recv r)
     @ Commit r @ be64 (Nonce r)"

subsection \<open>Session signer\<close>

text \<open>
  \<^verbatim>\<open>time.Time\<close> is an instant in nanoseconds relative to the Unix epoch; \<^verbatim>\<open>t.After(u)\<close>
  compares instants and \<^verbatim>\<open>t.UnixNano()\<close> is the instant as an \<^verbatim>\<open>int64\<close>.
\<close>

type_synonym Time = int

definition After :: "Time \<Rightarrow> Time \<Rightarrow> bool" where
  "After t u \<longleftrightarrow> u < t"

definition UnixNano :: "Time \<Rightarrow> int64" where
  "UnixNano t = word_of_int t"

text \<open>
  The key slices are compared with \<^verbatim>\<open>nil\<close> by \<^verbatim>\<open>Sign\<close>, so they are optional. The logger
  plays no part in any result and is left out.
\<close>

record SessionSigner =
  priv :: "bytes option"
  pub :: "bytes option"
  sessionID :: string
  started :: Time

text \<open>
  Ed25519 belongs to the standard library: \<^verbatim>\<open>ed25519.Sign(priv, msg)\<close> and
  \<^verbatim>\<open>ed25519.Verify(pub, msg, sig)\<close> are parameters, and the outcome of
  \<^verbatim>\<open>ed25519.GenerateKey(rand)\<close> is an argument of \<open>NewSessionSigner\<close>, with the clock reading.
\<close>

type_synonym sign_fn = "bytes \<Rightarrow> bytes \<Rightarrow> bytes"


definition PrivateKeySize :: nat where
  "PrivateKeySize = 64"


definition NewSessionSigner ::
    "(error + bytes \<times> bytes) \<Rightarrow> Time \<Rightarrow> string \<Rightarrow> error + SessionSigner" where
  "NewSessionSigner generated now sid =
     (case generated of
        Inl err \<Rightarrow> Inl err
      | Inr (pb, pv) \<Rightarrow>
          Inr \<lparr>priv = Some pv, pub = Some pb, sessionID = sid, started = now\<rparr>)"

definition PublicKey :: "SessionSigner \<Rightarrow> bytes" where
  "PublicKey s = (case pub s of None \<Rightarrow> [] | Some pb \<Rightarrow> [] @ pb)"

text \<open>\<^verbatim>\<open>Close\<close>: the loop \<^verbatim>\<open>for i := range s.priv { s.priv[i] = 0 }\<close>; over \<^verbatim>\<open>nil\<close> it does nothing.\<close>

definition wipe :: "bytes \<Rightarrow> bytes" where
  "wipe b = fold (\<lambda>i b. b[i := 0]) [0..<length b] b"

definition Close :: "SessionSigner \<Rightarrow> SessionSigner" where
  "Close s = s\<lparr>priv := map_option wipe (priv s)\<rparr>"

text \<open>
  \<^verbatim>\<open>Sign\<close> works on the receipt in place: the result is the receipt after the call and the
  returned error (\<open>None\<close> is \<^verbatim>\<open>nil\<close>). The first argument is the receiver pointer.
  \<^verbatim>\<open>ed25519.Sign\<close> panics on a private key whose length is not \<open>PrivateKeySize\<close>.

  This definition takes the receipt as a value, \<^verbatim>\<open>PubKey\<close> and \<^verbatim>\<open>Sig\<close> being the byte
  sequences of the two slices. It is what the call does when the two slices do not overlap in
  memory, as for the \<^verbatim>\<open>nil\<close> slices of \<open>FromSegment\<close>; \<open>Sign_mem\<close> below is the call on
  arbitrary slices, where the two appends may write into one array.
\<close>

definition Sign ::
    "hash_fn \<Rightarrow> sign_fn \<Rightarrow> SessionSigner option \<Rightarrow> Receipt \<Rightarrow> Receipt \<times> error option" where
  "Sign H sg s r =
     (case s of
        None \<Rightarrow> (r, Some (Err ''signer not initialized''))
      | Some s \<Rightarrow>
         (case priv s of
            None \<Rightarrow> (r, Some (Err ''signer not initialized''))
          | Some pv \<Rightarrow>
             (case pub s of
                None \<Rightarrow> (r, Some (Err ''signer not initialized''))
              | Some pb \<Rightarrow>
                  (let d = digest H r;
                       r = r\<lparr>PubKey := take 0 (PubKey r) @ pb\<rparr>
                   in if length pv \<noteq> PrivateKeySize
                      then (r, Some (Panic ''ed25519: bad private key length''))
                      else (let sig = sg pv d
                            in (r\<lparr>Sig := take 0 (Sig r) @ sig\<rparr>, None))))))"


subsection \<open>Receipts in memory\<close>

text \<open>
  A slice is a window on an array: the array, the offset of the first element, the length
  and the capacity. The heap is the list of the arrays allocated so far, and \<^verbatim>\<open>nil\<close> is
  \<open>None\<close>.
\<close>

record slice =
  s_arr :: nat
  s_off :: nat
  s_len :: nat
  s_cap :: nat

type_synonym heap = "bytes list"

text \<open>The elements of a slice, and what makes a slice header fit the heap.\<close>

definition bytes_at :: "heap \<Rightarrow> slice option \<Rightarrow> bytes" where
  "bytes_at hp so =
     (case so of
        None \<Rightarrow> []
      | Some s \<Rightarrow> take (s_len s) (drop (s_off s) (hp ! s_arr s)))"


text \<open>Two slices overlap when the capacity windows share an element of one array.\<close>

definition overlap :: "slice option \<Rightarrow> slice option \<Rightarrow> bool" where
  "overlap so to =
     (case (so, to) of
        (Some s, Some t) \<Rightarrow>
          s_arr s = s_arr t
          \<and> max (s_off s) (s_off t) < min (s_off s + s_cap s) (s_off t + s_cap t)
      | _ \<Rightarrow> False)"

text \<open>\<^verbatim>\<open>s[:0]\<close> keeps the array, the offset and the capacity.\<close>

definition reslice0 :: "slice option \<Rightarrow> slice option" where
  "reslice0 so = map_option (\<lambda>s. s\<lparr>s_len := 0\<rparr>) so"

text \<open>
  The built-in \<^verbatim>\<open>append(s, xs...)\<close>: when \<open>len s + len xs \<le> cap s\<close> the elements are written
  into the array of \<open>s\<close> behind its last element; otherwise a new array is allocated that
  holds the elements of \<open>s\<close> followed by \<open>xs\<close>. The result is the heap and the new header.
\<close>

definition write_at :: "bytes \<Rightarrow> nat \<Rightarrow> bytes \<Rightarrow> bytes" where
  "write_at a i xs = take i a @ xs @ drop (i + length xs) a"

definition append_slice :: "heap \<Rightarrow> slice option \<Rightarrow> bytes \<Rightarrow> heap \<times> slice option" where
  "append_slice hp so xs =
     (case so of
        None \<Rightarrow>
          if xs = [] then (hp, None)
          else (hp @ [xs],
                Some \<lparr>s_arr = length hp, s_off = 0, s_len = length xs, s_cap = length xs\<rparr>)
      | Some s \<Rightarrow>
          if s_len s + length xs \<le> s_cap s
          then (hp[s_arr s := write_at (hp ! s_arr s) (s_off s + s_len s) xs],
                Some (s\<lparr>s_len := s_len s + length xs\<rparr>))
          else (hp @ [bytes_at hp (Some s) @ xs],
                Some \<lparr>s_arr = length hp, s_off = 0, s_len = s_len s + length xs,
                      s_cap = s_len s + length xs\<rparr>))"

text \<open>
  The receipt as \<^verbatim>\<open>Sign\<close> reaches it through its pointer: the eight signed fields by value,
  \<^verbatim>\<open>PubKey\<close> and \<^verbatim>\<open>Sig\<close> as slice headers. \<open>load\<close> reads it as a value.
\<close>

record Receipt_mem =
  m_Version :: byte
  m_Path :: string
  m_Seq :: uint64
  m_Size :: int64
  m_Deadline :: int64
  m_Recv :: int64
  m_Commit :: bytes
  m_Nonce :: uint64
  m_PubKey :: "slice option"
  m_Sig :: "slice option"

definition load :: "heap \<Rightarrow> Receipt_mem \<Rightarrow> Receipt" where
  "load hp r =
     \<lparr>Version = m_Version r, Path = m_Path r, Seq = m_Seq r, Size = m_Size r,
      Deadline = m_Deadline r, Recv = m_Recv r, Commit = m_Commit r, Nonce = m_Nonce r,
      PubKey = bytes_at hp (m_PubKey r), Sig = bytes_at hp (m_Sig r)\<rparr>"

text \<open>
  \<^verbatim>\<open>func (s *SessionSigner) Sign(r *Receipt) error\<close> on the heap, statement by statement:
  \<^verbatim>\<open>r.PubKey = append(r.PubKey[:0], s.pub...)\<close>, then the signature, then
  \<^verbatim>\<open>r.Sig = append(r.Sig[:0], sig...)\<close>. The result is the heap and the receipt after the call
  and the returned error. The key slices of the signer are fields that no other package
  reaches (\<^verbatim>\<open>PublicKey\<close> hands out a copy), so they are values here.
\<close>

definition Sign_mem ::
    "hash_fn \<Rightarrow> sign_fn \<Rightarrow> SessionSigner option \<Rightarrow> heap \<Rightarrow> Receipt_mem
      \<Rightarrow> (heap \<times> Receipt_mem) \<times> error option" where
  "Sign_mem H sg s hp r =
     (case s of
        None \<Rightarrow> ((hp, r), Some (Err ''signer not initialized''))
      | Some s \<Rightarrow>
         (case priv s of
            None \<Rightarrow> ((hp, r), Some (Err ''signer not initialized''))
          | Some pv \<Rightarrow>
             (case pub s of
                None \<Rightarrow> ((hp, r), Some (Err ''signer not initialized''))
              | Some pb \<Rightarrow>
                  (let d = digest H (load hp r);
                       (hp, pk) = append_slice hp (reslice0 (m_PubKey r)) pb;
                       r = r\<lparr>m_PubKey := pk\<rparr>
                   in if length pv \<noteq> PrivateKeySize
                      then ((hp, r), Some (Panic ''ed25519: bad private key length''))
                      else (let sig = sg pv d;
                                (hp, sl) = append_slice hp (reslice0 (m_Sig r)) sig;
                                r = r\<lparr>m_Sig := sl\<rparr>
                            in ((hp, r), None))))))"


subsection \<open>Segment observations\<close>

text \<open>\<^verbatim>\<open>service.SegmentReceipt\<close>; its fields carry the prefix \<open>seg_\<close> here.\<close>

record SegmentReceipt =
  seg_Path :: string
  seg_Seq :: uint64
  seg_Size :: int64
  seg_Deadline :: Time
  seg_Recv :: Time
  seg_Commit :: bytes
  seg_Meta :: int64

definition FromSegment :: "SegmentReceipt \<Rightarrow> uint64 \<Rightarrow> Receipt" where
  "FromSegment sr nonce =
     \<lparr>Version = ReceiptVersion,
      Path = seg_Path sr,
      Seq = seg_Seq sr,
      Size = seg_Size sr,
      Deadline = UnixNano (seg_Deadline sr),
      Recv = UnixNano (seg_Recv sr),
      Commit = seg_Commit sr,
      Nonce = nonce,
      PubKey = [],
      Sig = []\<rparr>"

text \<open>The zero value \<^verbatim>\<open>Receipt{}\<close>.\<close>

definition zero_Receipt :: Receipt where
  "zero_Receipt =
     \<lparr>Version = 0, Path = [], Seq = 0, Size = 0, Deadline = 0, Recv = 0,
      Commit = replicate 32 0, Nonce = 0, PubKey = [], Sig = []\<rparr>"

definition signAndReturn ::
    "hash_fn \<Rightarrow> sign_fn \<Rightarrow> SessionSigner option \<Rightarrow> Receipt \<Rightarrow> Receipt \<times> error option" where
  "signAndReturn H sg s r =
     (case Sign H sg s r of
        (r', Some err) \<Rightarrow> (zero_Receipt, Some err)
      | (r', None) \<Rightarrow> (r', None))"

definition BuildAndSign ::
    "hash_fn \<Rightarrow> sign_fn \<Rightarrow> SessionSigner option \<Rightarrow> SegmentReceipt \<Rightarrow> uint64
      \<Rightarrow> Receipt \<times> error option" where
  "BuildAndSign H sg s sr nonce = (let r = FromSegment sr nonce in signAndReturn H sg s r)"

subsection \<open>Batching and anchoring\<close>

definition hash32 :: "hash_fn \<Rightarrow> hasher \<Rightarrow> bytes" where
  "hash32 H h = copy_into (replicate 32 0) (Sum_nil H h)"

definition MerkleLeaf :: "hash_fn \<Rightarrow> Receipt \<Rightarrow> bytes" where
  "MerkleLeaf H r =
     (let d = digest H r;
          h = sha256_New;
          h = Write h (bytes_of ''leaf'');
          h = Write h d
      in hash32 H h)"

text \<open>
  The pairing loop of \<^verbatim>\<open>merkleize\<close>, \<^verbatim>\<open>for i := 0; i < len(nodes); i += 2\<close>, which appends
  the hash of \<^verbatim>\<open>nodes[i]\<close> and \<^verbatim>\<open>nodes[i+1]\<close> to \<^verbatim>\<open>next\<close>. It is entered on levels of even
  length only, so that \<^verbatim>\<open>nodes[i+1]\<close> exists; the last equation is not reached.
\<close>

fun next_level :: "hash_fn \<Rightarrow> bytes list \<Rightarrow> bytes list" where
  "next_level H (l # r # rest) =
     (let h = sha256_New;
          h = Write h l;
          h = Write h r
      in hash32 H h # next_level H rest)"
| "next_level H [] = []"
| "next_level H [l] = []"

text \<open>
  \<^verbatim>\<open>merkleize\<close> recurses on the next level until one node is left. On the empty list the
  source recurses forever, so the function is partial: \<open>None\<close> stands for no result.
\<close>

partial_function (option) merkleize :: "hash_fn \<Rightarrow> bytes list \<Rightarrow> bytes option" where
  [code]: "merkleize H nodes =
     (if length nodes = 1 then Some (nodes ! 0)
      else merkleize H
             (next_level H
               (if length nodes mod 2 = 1 then nodes @ [nodes ! (length nodes - 1)]
                else nodes)))"

definition MerkleRoot :: "hash_fn \<Rightarrow> Receipt list \<Rightarrow> bytes option" where
  "MerkleRoot H receipts =
     (if length receipts = 0 then Some (replicate 32 0)
      else (let leaves = map (MerkleLeaf H) receipts in merkleize H leaves))"

text \<open>\<^verbatim>\<open>hex.EncodeToString\<close>: two lower-case digits per byte, high nibble first.\<close>

definition hextable :: string where
  "hextable = ''0123456789abcdef''"

definition hex_EncodeToString :: "bytes \<Rightarrow> string" where
  "hex_EncodeToString src =
     concat (map (\<lambda>v. [hextable ! unat (drop_bit 4 v), hextable ! unat (v AND 0x0f)]) src)"

text \<open>The comparison that \<^verbatim>\<open>AggregateAnchor\<close> hands to \<^verbatim>\<open>sort.Slice\<close>, on the elements.\<close>

definition receipt_less :: "Receipt \<Rightarrow> Receipt \<Rightarrow> bool" where
  "receipt_less a b = (if Path a = Path b then Seq a < Seq b else Path a < Path b)"

text \<open>
  \<^verbatim>\<open>sort.Slice(rs, less)\<close> is a parameter \<open>srt\<close>. What the library promises for a strict weak
  order is that the slice is permuted and ends up sorted; it does not promise stability.
\<close>

type_synonym sort_fn = "(Receipt \<Rightarrow> Receipt \<Rightarrow> bool) \<Rightarrow> Receipt list \<Rightarrow> Receipt list"

definition sorts :: "sort_fn \<Rightarrow> bool" where
  "sorts srt \<longleftrightarrow>
     (\<forall>rs. mset (srt receipt_less rs) = mset rs
         \<and> sorted_wrt (\<lambda>a b. \<not> receipt_less b a) (srt receipt_less rs))"

definition AggregateAnchor :: "hash_fn \<Rightarrow> sort_fn \<Rightarrow> Receipt list \<Rightarrow> string option" where
  "AggregateAnchor H srt rs =
     (if length rs = 0 then Some ''''
      else (let rs = srt receipt_less rs
            in case MerkleRoot H rs of
                 None \<Rightarrow> None
               | Some root \<Rightarrow> Some (hex_EncodeToString root)))"

text \<open>The pair that the comparison orders by: the path first, then the sequence number.\<close>

definition sort_key_of :: "Receipt \<Rightarrow> string \<times> uint64" where
  "sort_key_of r = (Path r, Seq r)"

subsection \<open>QoS aggregator\<close>

record streamStats =
  Accepted :: int64
  Late :: int64
  Bytes :: int64
  LastSeq :: uint64
  rolling :: bytes
  recentCommits :: "bytes list"

text \<open>The zero value \<^verbatim>\<open>streamStats{}\<close> that \<^verbatim>\<open>add\<close> allocates for a new path.\<close>

definition zero_streamStats :: streamStats where
  "zero_streamStats =
     \<lparr>Accepted = 0, Late = 0, Bytes = 0, LastSeq = 0, rolling = replicate 32 0,
      recentCommits = []\<rparr>"

text \<open>
  The agent without its logger and its mutex. \<^verbatim>\<open>maxRecent\<close> is a Go \<^verbatim>\<open>int\<close>; durations are
  nanoseconds.
\<close>

record Agent =
  perPath :: "string \<rightharpoonup> streamStats"
  lastFlush :: Time
  flushInterval :: int
  maxRecent :: int

definition zero_Time :: Time where
  "zero_Time = - 62135596800 * 1000000000"

definition New :: Agent where
  "New =
     \<lparr>perPath = Map.empty, lastFlush = zero_Time, flushInterval = 10 * 1000000000,
      maxRecent = 64\<rparr>"

definition onTime :: "SegmentReceipt \<Rightarrow> bool" where
  "onTime r \<longleftrightarrow> \<not> After (seg_Recv r) (seg_Deadline r)"

text \<open>The rolling hash of an accepted observation; \<^verbatim>\<open>putU64\<close> of this package has the same body.\<close>

definition roll :: "hash_fn \<Rightarrow> bytes \<Rightarrow> SegmentReceipt \<Rightarrow> bytes" where
  "roll H rolling0 r =
     (let h = sha256_New;
          h = Write h rolling0;
          h = Write h (seg_Commit r);
          seqBuf = putU64 (replicate 8 0) (seg_Seq r);
          h = Write h seqBuf;
          sizeBuf = putU64 (replicate 8 0) (seg_Size r);
          h = Write h sizeBuf;
          seqBuf = putU64 seqBuf (UnixNano (seg_Deadline r));
          h = Write h seqBuf;
          seqBuf = putU64 seqBuf (UnixNano (seg_Recv r));
          h = Write h seqBuf
      in copy_into rolling0 (Sum_nil H h))"

text \<open>
  \<^verbatim>\<open>func (a *Agent) add(r SegmentReceipt)\<close>. The stats are reached through a pointer stored
  in the map, so the updated record is written back under the path. Reslicing
  \<^verbatim>\<open>recentCommits[len-maxRecent:]\<close> panics when the lower bound exceeds the length, which is
  the case for a negative \<^verbatim>\<open>maxRecent\<close>.
\<close>

definition add :: "hash_fn \<Rightarrow> Agent \<Rightarrow> SegmentReceipt \<Rightarrow> error + Agent" where
  "add H a r =
     (let st = (case perPath a (seg_Path r) of None \<Rightarrow> zero_streamStats | Some st \<Rightarrow> st);
          st = (if seg_Seq r > LastSeq st then st\<lparr>LastSeq := seg_Seq r\<rparr> else st)
      in if onTime r then
           (let st = st\<lparr>Accepted := Accepted st + 1\<rparr>;
                st = st\<lparr>Bytes := Bytes st + seg_Size r\<rparr>;
                st = st\<lparr>rolling := roll H (rolling st) r\<rparr>;
                st = st\<lparr>recentCommits := recentCommits st @ [seg_Commit r]\<rparr>
            in if int (length (recentCommits st)) > maxRecent a then
                 (if int (length (recentCommits st)) - maxRecent a > int (length (recentCommits st))
                  then Inl (Panic ''slice bounds out of range'')
                  else Inr (a\<lparr>perPath := (perPath a)(seg_Path r \<mapsto>
                         st\<lparr>recentCommits :=
                              drop (nat (int (length (recentCommits st)) - maxRecent a))
                                (recentCommits st)\<rparr>)\<rparr>))
               else Inr (a\<lparr>perPath := (perPath a)(seg_Path r \<mapsto> st)\<rparr>))
         else Inr (a\<lparr>perPath := (perPath a)(seg_Path r \<mapsto> st\<lparr>Late := Late st + 1\<rparr>)\<rparr>))"

text \<open>Recording a sequence of observations, one call of \<open>add\<close> each; a panic ends the run.\<close>

fun add_all :: "hash_fn \<Rightarrow> Agent \<Rightarrow> SegmentReceipt list \<Rightarrow> error + Agent" where
  "add_all H a [] = Inr a"
| "add_all H a (r # rs) = (case add H a r of Inl e \<Rightarrow> Inl e | Inr a' \<Rightarrow> add_all H a' rs)"

text \<open>
  The package-level variables \<^verbatim>\<open>defaultAgent\<close> and \<^verbatim>\<open>once\<close>. \<open>Start_once\<close> is the body that
  \<^verbatim>\<open>Start\<close> runs under \<^verbatim>\<open>once.Do\<close>, the only assignment to \<^verbatim>\<open>defaultAgent\<close>.
\<close>

record Globals =
  defaultAgent :: "Agent option"
  once :: bool

definition init_Globals :: Globals where
  "init_Globals = \<lparr>defaultAgent = None, once = False\<rparr>"

definition Start_once :: "Globals \<Rightarrow> Time \<Rightarrow> Globals" where
  "Start_once g now =
     (if once g then g
      else g\<lparr>defaultAgent := Some (New\<lparr>lastFlush := now\<rparr>), once := True\<rparr>)"

text \<open>\<^verbatim>\<open>AddReceipt\<close> returns nothing; the result is the package state after the call.\<close>

definition AddReceipt :: "hash_fn \<Rightarrow> Globals \<Rightarrow> SegmentReceipt \<Rightarrow> error + Globals" where
  "AddReceipt H g r =
     (case defaultAgent g of
        None \<Rightarrow> Inr g
      | Some a \<Rightarrow>
          (case add H a r of
             Inl e \<Rightarrow> Inl e
           | Inr a' \<Rightarrow> Inr (g\<lparr>defaultAgent := Some a'\<rparr>)))"

subsection \<open>Reference instances of the library parameters\<close>

text \<open>
  Concrete stand-ins with the interfaces of the library functions, for running the model on
  concrete inputs: 32 interleaved polynomial checksums of the input, a signature scheme whose private key
  ends in the public key (as Ed25519 private keys do), and insertion sort (which
  \<^verbatim>\<open>sort.Slice\<close> itself uses on short slices).
\<close>

definition ref_hash :: hash_fn where
  "ref_hash m = fold (\<lambda>b st. rotate1 ((31 * hd st + b + 1) # tl st)) m (replicate 32 0)"

definition ref_sign :: sign_fn where
  "ref_sign pv m = drop 32 pv @ copy_into (replicate 32 0) m"


fun insert_by :: "('a \<Rightarrow> 'a \<Rightarrow> bool) \<Rightarrow> 'a \<Rightarrow> 'a list \<Rightarrow> 'a list" where
  "insert_by lt x [] = [x]"
| "insert_by lt x (y # ys) =
     (if lt x y then x # y # ys else y # insert_by lt x ys)"

definition insertion_sort :: "('a \<Rightarrow> 'a \<Rightarrow> bool) \<Rightarrow> 'a list \<Rightarrow> 'a list" where
  "insertion_sort lt xs = foldl (\<lambda>acc x. insert_by lt x acc) [] xs"

text \<open>
  The contract of recording one observation in the words of the specification: the highest
  sequence number is kept; an on-time observation increments the accepted count, adds its
  size to the accepted bytes, updates the rolling anchor and appends its commitment to the
  ring, which keeps the last \<open>cap\<close> entries; a late one increments the late count only.
\<close>

definition last_n :: "nat \<Rightarrow> 'a list \<Rightarrow> 'a list" where
  "last_n n xs = drop (length xs - n) xs"

definition record_stats :: "hash_fn \<Rightarrow> nat \<Rightarrow> streamStats \<Rightarrow> SegmentReceipt \<Rightarrow> streamStats" where
  "record_stats H cap st r =
     (if seg_Recv r \<le> seg_Deadline r then
        st\<lparr>LastSeq := max (LastSeq st) (seg_Seq r),
           Accepted := Accepted st + 1,
           Bytes := Bytes st + seg_Size r,
           rolling := roll H (rolling st) r,
           recentCommits := last_n cap (recentCommits st @ [seg_Commit r])\<rparr>
      else st\<lparr>LastSeq := max (LastSeq st) (seg_Seq r), Late := Late st + 1\<rparr>)"

text \<open>The stats that \<open>add\<close> starts from for a path: the stored ones, or the zero value.\<close>

definition stats_of :: "Agent \<Rightarrow> string \<Rightarrow> streamStats" where
  "stats_of a p = (case perPath a p of None \<Rightarrow> zero_streamStats | Some st \<Rightarrow> st)"

subsection \<open>Concrete inputs\<close>

definition ex_receipt :: Receipt where
  "ex_receipt =
     \<lparr>Version = 1, Path = ''live/stream'', Seq = 1, Size = 1000,
      Deadline = 1700000000000000000, Recv = 1700000000000000000,
      Commit = replicate 32 7, Nonce = 42, PubKey = [], Sig = []\<rparr>"

definition ex_pub :: bytes where
  "ex_pub = replicate 32 2"

definition ex_priv :: bytes where
  "ex_priv = replicate 32 1 @ ex_pub"

definition ex_signer :: SessionSigner where
  "ex_signer = \<lparr>priv = Some ex_priv, pub = Some ex_pub, sessionID = ''s1'', started = 0\<rparr>"

definition ex_obs :: "Time \<Rightarrow> bytes \<Rightarrow> SegmentReceipt" where
  "ex_obs recv c =
     \<lparr>seg_Path = ''live/stream'', seg_Seq = 1, seg_Size = 1000, seg_Deadline = 5,
      seg_Recv = recv, seg_Commit = c, seg_Meta = 0\<rparr>"

definition ex_a2 :: Receipt where
  "ex_a2 = ex_receipt\<lparr>Path := ''a'', Seq := 2\<rparr>"

definition ex_b1 :: Receipt where
  "ex_b1 = ex_receipt\<lparr>Path := ''b'', Seq := 1\<rparr>"

definition ex_run :: "SegmentReceipt list" where
  "ex_run =
     [ex_obs 5 (replicate 32 1), ex_obs 6 (replicate 32 2),
      (ex_obs 4 (replicate 32 3))\<lparr>seg_Path := ''other''\<rparr>, ex_obs 3 (replicate 32 4)]"

definition ex_many :: "SegmentReceipt list" where
  "ex_many = map (\<lambda>i. ex_obs 5 (replicate 32 (word_of_nat i))) [0..<65]"





section \<open>Properties\<close>

subsection \<open>Encoders\<close>

lemma putU64_be64: "length b = 8 \<Longrightarrow> putU64 b v = be64 v"
  by (simp add: putU64_def be64_def list_eq_iff_nth_eq nth_list_update less_Suc_eq
      eval_nat_numeral)

lemma PutUint16_be16: "length b = 2 \<Longrightarrow> PutUint16 b v = be16 v"
  by (simp add: PutUint16_def be16_def list_eq_iff_nth_eq nth_list_update less_Suc_eq
      eval_nat_numeral)

lemma length_be64 [simp]: "length (be64 v) = 8"
  by (simp add: be64_def)

lemma length_be16 [simp]: "length (be16 v) = 2"
  by (simp add: be16_def)

lemma copy_into_same_length: "length src = length dst \<Longrightarrow> copy_into dst src = src"
  by (simp add: copy_into_def)

lemma length_copy_into [simp]: "length (copy_into dst src) = length dst"
  by (simp add: copy_into_def)

lemma digest_hasher_preimage: "digest_hasher r = preimage r"
  by (simp add: digest_hasher_def preimage_def Let_def sha256_New_def Write_def
      putI64_def putU64_be64 PutUint16_be16)

lemma length_digest [simp]: "length (digest H r) = 32"
  by (simp add: digest_def)

subsection \<open>The digest\<close>

lemma unat_of_char: "unat (of_char c :: byte) = of_char c"
proof -
  have "(of_char c :: byte) = of_nat (of_char c)" by (simp only: of_nat_of_char)
  then show ?thesis using nat_of_char_less_256[of c] by (simp add: unat_of_nat)
qed

lemma inj_of_char_byte: "inj (of_char :: char \<Rightarrow> byte)"
  by (rule inj_on_inverseI[where g="\<lambda>w. char_of (unat w)"]) (simp add: unat_of_char)

lemma bytes_of_inj: "bytes_of s = bytes_of t \<Longrightarrow> s = t"
  unfolding bytes_of_def using inj_of_char_byte by simp

lemma length_bytes_of [simp]: "length (bytes_of s) = length s"
  by (simp add: bytes_of_def)

lemma bit_window:
  fixes v w :: "'a::len word"
  assumes "\<forall>k<8. bit v (c + k) = bit w (c + k)" "c \<le> n" "n < c + 8"
  shows "bit v n = bit w n"
proof -
  from assms(2,3) have "n - c < 8" by simp
  with assms(1) have "bit v (c + (n - c)) = bit w (c + (n - c))" by blast
  with assms(2) show ?thesis by simp
qed

lemma be64_inj:
  assumes "be64 v = be64 w"
  shows "v = w"
proof (rule bit_word_eqI)
  fix n
  assume "n < LENGTH(64)"
  then have n: "n < 64" by simp
  from assms have
    w: "\<forall>k<8. bit v (56 + k) = bit w (56 + k)" "\<forall>k<8. bit v (48 + k) = bit w (48 + k)"
       "\<forall>k<8. bit v (40 + k) = bit w (40 + k)" "\<forall>k<8. bit v (32 + k) = bit w (32 + k)"
       "\<forall>k<8. bit v (24 + k) = bit w (24 + k)" "\<forall>k<8. bit v (16 + k) = bit w (16 + k)"
       "\<forall>k<8. bit v (8 + k) = bit w (8 + k)" "\<forall>k<8. bit v (0 + k) = bit w (0 + k)"
    by (simp_all add: be64_def bit_eq_iff bit_simps)
  from n consider "n < 8" | "8 \<le> n \<and> n < 16" | "16 \<le> n \<and> n < 24" | "24 \<le> n \<and> n < 32"
    | "32 \<le> n \<and> n < 40" | "40 \<le> n \<and> n < 48" | "48 \<le> n \<and> n < 56" | "56 \<le> n \<and> n < 64"
    by linarith
  then show "bit v n = bit w n"
  proof cases
    case 1 then show ?thesis using bit_window [OF w(8)] by simp
  next
    case 2 then show ?thesis using bit_window [OF w(7)] by simp
  next
    case 3 then show ?thesis using bit_window [OF w(6)] by simp
  next
    case 4 then show ?thesis using bit_window [OF w(5)] by simp
  next
    case 5 then show ?thesis using bit_window [OF w(4)] by simp
  next
    case 6 then show ?thesis using bit_window [OF w(3)] by simp
  next
    case 7 then show ?thesis using bit_window [OF w(2)] by simp
  next
    case 8 then show ?thesis using bit_window [OF w(1)] by simp
  qed
qed

lemma length_preimage: "length (preimage r) = 66 + length (Path r) + length (Commit r)"
  by (simp add: preimage_def DomainTag_def)

lemma preimage_inj:
  assumes "length (Commit r1) = 32" "length (Commit r2) = 32" "preimage r1 = preimage r2"
  shows "Version r1 = Version r2 \<and> Path r1 = Path r2 \<and> Seq r1 = Seq r2 \<and> Size r1 = Size r2
    \<and> Deadline r1 = Deadline r2 \<and> Recv r1 = Recv r2 \<and> Commit r1 = Commit r2 \<and> Nonce r1 = Nonce r2"
proof -
  have "length (preimage r1) = length (preimage r2)" using assms(3) by simp
  then have len: "length (Path r1) = length (Path r2)"
    using assms(1,2) by (simp add: length_preimage)
  from assms(3) len assms(1,2) show ?thesis
    by (auto simp: preimage_def dest: be64_inj bytes_of_inj)
qed

lemma length_ref_hash [simp]: "length (ref_hash m) = 32"
proof -
  have "length (fold (\<lambda>b st. rotate1 ((31 * hd st + b + 1) # tl st)) m st) = length st"
    if "st \<noteq> []" for st :: bytes
    using that by (induction m arbitrary: st) simp_all
  from this [of "replicate 32 0"] show ?thesis
    unfolding ref_hash_def by simp
qed

subsection \<open>Signing\<close>

lemma wipe_aux:
  "n \<le> length b \<Longrightarrow> fold (\<lambda>i b. b[i := 0]) [0..<n] b = replicate n (0::byte) @ drop n b"
proof (induction n)
  case 0
  then show ?case by simp
next
  case (Suc n)
  then have "n < length b" by simp
  then have "(replicate n 0 @ drop n b)[n := 0] = replicate (Suc n) (0::byte) @ drop (Suc n) b"
    by (simp add: list_update_append replicate_append_same upd_conv_take_nth_drop
        flip: Cons_nth_drop_Suc)
  with Suc show ?case by simp
qed

lemma wipe_replicate: "wipe b = replicate (length b) 0"
  by (simp add: wipe_def wipe_aux)

lemma digest_hasher_keys [simp]:
  "digest_hasher (r\<lparr>PubKey := k\<rparr>) = digest_hasher r"
  "digest_hasher (r\<lparr>Sig := g\<rparr>) = digest_hasher r"
  by (simp_all add: digest_hasher_def)

lemma digest_keys [simp]:
  "digest H (r\<lparr>PubKey := k\<rparr>) = digest H r"
  "digest H (r\<lparr>Sig := g\<rparr>) = digest H r"
  by (simp_all add: digest_def)


lemma Sign_after_Close:
  assumes "priv s = Some pv" and "pub s = Some pb" and "length pv = PrivateKeySize"
  shows "Sign H sg (Some (Close s)) r
         = (r\<lparr>PubKey := pb, Sig := sg (replicate PrivateKeySize 0) (digest H r)\<rparr>, None)"
  using assms by (simp add: Sign_def Let_def Close_def wipe_replicate)

subsection \<open>Signing on slices\<close>





lemma bytes_at_reslice0 [simp]: "bytes_at hp (reslice0 so) = []"
  by (simp add: bytes_at_def reslice0_def split: option.splits)

lemma overlap_reslice0 [simp]:
  "overlap (reslice0 so) to = overlap so to" "overlap so (reslice0 to) = overlap so to"
  by (simp_all add: overlap_def reslice0_def split: option.splits)




lemma load_fields [simp]:
  "Version (load hp r) = m_Version r" "Path (load hp r) = m_Path r" "Seq (load hp r) = m_Seq r"
  "Size (load hp r) = m_Size r" "Deadline (load hp r) = m_Deadline r"
  "Recv (load hp r) = m_Recv r" "Commit (load hp r) = m_Commit r" "Nonce (load hp r) = m_Nonce r"
  "PubKey (load hp r) = bytes_at hp (m_PubKey r)" "Sig (load hp r) = bytes_at hp (m_Sig r)"
  by (simp_all add: load_def)




text \<open>After \<open>Close\<close> the call on the heap returns no error either, for every receipt.\<close>

lemma Sign_mem_after_Close:
  assumes "priv s = Some pv" and "pub s = Some pb" and "length pv = PrivateKeySize"
  shows "snd (Sign_mem H sg (Some (Close s)) hp r) = None"
  using assms
  by (simp add: Sign_mem_def Let_def Close_def wipe_replicate split: prod.splits)

subsection \<open>Merkle root and anchor\<close>

lemma length_next_level: "length (next_level H xs) = length xs div 2"
  by (induction H xs rule: next_level.induct) (simp_all add: Let_def)

lemma length_hash32 [simp]: "length (hash32 H h) = 32"
  by (simp add: hash32_def)

lemma next_level_32: "x \<in> set (next_level H xs) \<Longrightarrow> length x = 32"
  by (induction H xs rule: next_level.induct) (auto simp: Let_def)

lemma merkleize_returns:
  assumes "nodes \<noteq> []"
  shows "\<exists>root. merkleize H nodes = Some root
            \<and> ((\<forall>x\<in>set nodes. length x = 32) \<longrightarrow> length root = 32)"
  using assms
proof (induction "length nodes" arbitrary: nodes rule: less_induct)
  case less
  show ?case
  proof (cases "length nodes = 1")
    case True
    then obtain x where "nodes = [x]"
      by (cases nodes) auto
    then show ?thesis
      by (subst merkleize.simps) simp
  next
    case False
    define padded where
      "padded = (if length nodes mod 2 = 1 then nodes @ [nodes ! (length nodes - 1)] else nodes)"
    define nxt where "nxt = next_level H padded"
    from False less.prems have two: "2 \<le> length nodes"
      by (cases nodes) (auto simp: Suc_le_eq)
    have "length nxt = (length nodes + 1) div 2"
      unfolding nxt_def padded_def length_next_level by (auto simp: mod_2_eq_odd elim: oddE)
    with two have small: "length nxt < length nodes" and "nxt \<noteq> []"
      by auto
    from less.hyps [OF small \<open>nxt \<noteq> []\<close>] obtain root where
      root: "merkleize H nxt = Some root" "(\<forall>x\<in>set nxt. length x = 32) \<longrightarrow> length root = 32"
      by blast
    have "merkleize H nodes = merkleize H nxt"
      using False by (subst merkleize.simps) (simp add: nxt_def padded_def)
    moreover have "length root = 32"
      using root(2) next_level_32 [of _ H padded] by (simp add: nxt_def)
    ultimately show ?thesis
      using root(1) by simp
  qed
qed

text \<open>On the empty list \<open>merkleize\<close> has no result.\<close>

lemma merkleize_Some_nonempty:
  assumes "merkleize H nodes = Some root"
  shows "nodes \<noteq> []"
proof (rule merkleize.raw_induct [where P = "\<lambda>H nodes root. nodes \<noteq> []", OF _ assms])
  fix merkleize' :: "hash_fn \<Rightarrow> bytes list \<Rightarrow> bytes option" and H nodes root
  assume IH: "\<And>H nodes root. merkleize' H nodes = Some root \<Longrightarrow> nodes \<noteq> []"
    and step: "(if length nodes = 1 then Some (nodes ! 0)
      else merkleize' H
             (next_level H
               (if length nodes mod 2 = 1 then nodes @ [nodes ! (length nodes - 1)]
                else nodes))) = Some root"
  show "nodes \<noteq> []"
  proof
    assume "nodes = []"
    with step have "merkleize' H [] = Some root" by simp
    with IH show False by blast
  qed
qed

lemma merkleize_Nil: "merkleize H [] = None"
  using merkleize_Some_nonempty [of H "[]"] by (cases "merkleize H []") auto

lemma length_MerkleLeaf [simp]: "length (MerkleLeaf H r) = 32"
  by (simp add: MerkleLeaf_def Let_def)

lemma MerkleRoot_returns: "\<exists>root. MerkleRoot H rs = Some root \<and> length root = 32"
proof (cases "rs = []")
  case True
  then show ?thesis by (simp add: MerkleRoot_def)
next
  case False
  then have "map (MerkleLeaf H) rs \<noteq> []" by simp
  from merkleize_returns [OF this, of H] show ?thesis
    using False by (auto simp: MerkleRoot_def Let_def)
qed

lemma MerkleRoot_Nil: "MerkleRoot H [] = Some (replicate 32 0)"
  by (simp add: MerkleRoot_def)

lemma MerkleRoot_single: "MerkleRoot H [x] = Some (MerkleLeaf H x)"
  by (simp add: MerkleRoot_def Let_def merkleize.simps)

lemma receipt_less_key: "receipt_less a b \<longleftrightarrow> sort_key_of a < sort_key_of b"
  by (auto simp: receipt_less_def sort_key_of_def less_prod_def)

lemma sorted_wrt_receipt_less:
  "sorted_wrt (\<lambda>a b. \<not> receipt_less b a) rs \<longleftrightarrow> sorted (map sort_key_of rs)"
  by (simp add: receipt_less_key sorted_map not_less)

lemma sorted_perm_unique:
  assumes "distinct (map sort_key_of rs)"
    and "mset xs = mset rs" and "sorted (map sort_key_of xs)"
    and "mset ys = mset rs" and "sorted (map sort_key_of ys)"
  shows "xs = ys"
proof -
  have "mset (map sort_key_of xs) = mset (map sort_key_of rs)"
       "mset (map sort_key_of ys) = mset (map sort_key_of rs)"
    using assms(2,4) by simp_all
  then have d: "distinct (map sort_key_of xs)" "distinct (map sort_key_of ys)"
    and s: "set (map sort_key_of xs) = set (map sort_key_of ys)"
    using assms(1) by (metis mset_eq_imp_distinct_iff, metis mset_eq_imp_distinct_iff, metis mset_eq_setD)
  from assms(3,5) d s have keys: "map sort_key_of xs = map sort_key_of ys"
    by (simp add: sorted_distinct_set_unique)
  have "set xs = set rs" "set ys = set rs"
    using assms(2,4) by (auto dest: mset_eq_setD)
  moreover from assms(1) have "inj_on sort_key_of (set rs)"
    by (simp add: distinct_map)
  ultimately show ?thesis
    using keys by (simp add: inj_on_map_eq_map [of sort_key_of xs ys])
qed

lemma insert_by_mset: "mset (insert_by lt x xs) = add_mset x (mset xs)"
  by (induction xs) simp_all

lemma insertion_sort_mset_aux: "mset (foldl (\<lambda>acc x. insert_by lt x acc) acc xs) = mset acc + mset xs"
  by (induction xs arbitrary: acc) (simp_all add: insert_by_mset)

lemma insert_by_set: "set (insert_by lt x xs) = insert x (set xs)"
  by (induction xs) auto

lemma insert_by_sorted:
  "sorted (map sort_key_of xs) \<Longrightarrow> sorted (map sort_key_of (insert_by receipt_less x xs))"
  by (induction xs) (auto simp: receipt_less_key insert_by_set)

lemma insertion_sort_sorted_aux:
  "sorted (map sort_key_of acc)
   \<Longrightarrow> sorted (map sort_key_of (foldl (\<lambda>acc x. insert_by receipt_less x acc) acc xs))"
  by (induction xs arbitrary: acc) (simp_all add: insert_by_sorted)

lemma sorts_insertion_sort: "sorts insertion_sort"
  by (simp add: sorts_def insertion_sort_def insertion_sort_mset_aux sorted_wrt_receipt_less
      insertion_sort_sorted_aux)

lemma AggregateAnchor_nonempty:
  assumes "rs \<noteq> []"
  shows "AggregateAnchor H srt rs
         = map_option hex_EncodeToString (MerkleRoot H (srt receipt_less rs))"
  using assms by (simp add: AggregateAnchor_def Let_def map_option_case)

subsection \<open>QoS aggregator\<close>

lemma onTime_iff: "onTime r \<longleftrightarrow> seg_Recv r \<le> seg_Deadline r"
  by (auto simp: onTime_def After_def)

lemma add_refines:
  assumes "0 \<le> maxRecent a"
  shows "add H a r =
    Inr (a\<lparr>perPath := (perPath a)(seg_Path r \<mapsto>
           record_stats H (nat (maxRecent a)) (stats_of a (seg_Path r)) r)\<rparr>)"
proof -
  have "nat (1 + int n - maxRecent a) = Suc n - nat (maxRecent a)" for n
    using assms by linarith
  then show ?thesis
    using assms
    by (auto simp: add_def record_stats_def stats_of_def last_n_def Let_def onTime_iff max_def
        not_less intro!: streamStats.equality split: option.splits)
qed

lemma add_panics:
  assumes "maxRecent a < 0" and "onTime r"
  shows "add H a r = Inl (Panic ''slice bounds out of range'')"
  using assms by (simp add: add_def Let_def)

lemma add_all_refines:
  assumes "0 \<le> maxRecent a"
  shows "\<exists>a'. add_all H a obs = Inr a' \<and> maxRecent a' = maxRecent a
    \<and> perPath a' p =
        (if filter (\<lambda>r. seg_Path r = p) obs = [] then perPath a p
         else Some (foldl (record_stats H (nat (maxRecent a))) (stats_of a p)
                      (filter (\<lambda>r. seg_Path r = p) obs)))"
  using assms
proof (induction obs arbitrary: a)
  case Nil
  then show ?case by simp
next
  case (Cons r obs)
  define a1 where "a1 = a\<lparr>perPath := (perPath a)(seg_Path r \<mapsto>
           record_stats H (nat (maxRecent a)) (stats_of a (seg_Path r)) r)\<rparr>"
  have step: "add H a r = Inr a1"
    unfolding a1_def by (rule add_refines [OF Cons.prems])
  have cap: "maxRecent a1 = maxRecent a"
    by (simp add: a1_def)
  with Cons.prems have "0 \<le> maxRecent a1" by simp
  from Cons.IH [OF this] obtain a' where a':
    "add_all H a1 obs = Inr a'" "maxRecent a' = maxRecent a1"
    "perPath a' p =
        (if filter (\<lambda>r. seg_Path r = p) obs = [] then perPath a1 p
         else Some (foldl (record_stats H (nat (maxRecent a1))) (stats_of a1 p)
                      (filter (\<lambda>r. seg_Path r = p) obs)))"
    by blast
  have "stats_of a1 p = (if seg_Path r = p then record_stats H (nat (maxRecent a)) (stats_of a p) r
                         else stats_of a p)"
    by (simp add: a1_def stats_of_def)
  moreover have "perPath a1 p = (if seg_Path r = p
      then Some (record_stats H (nat (maxRecent a)) (stats_of a p) r) else perPath a p)"
    by (auto simp: a1_def)
  ultimately show ?case
    using a' step cap by simp
qed

lemma foldl_record_Accepted:
  "Accepted (foldl (record_stats H cap) st ops)
   = Accepted st + word_of_nat (length (filter onTime ops))"
  by (induction ops arbitrary: st) (simp_all add: record_stats_def onTime_iff)

lemma foldl_record_Late:
  "Late (foldl (record_stats H cap) st ops)
   = Late st + word_of_nat (length (filter (\<lambda>r. \<not> onTime r) ops))"
  by (induction ops arbitrary: st) (simp_all add: record_stats_def onTime_iff)

lemma foldl_record_Bytes:
  "Bytes (foldl (record_stats H cap) st ops)
   = Bytes st + sum_list (map seg_Size (filter onTime ops))"
  by (induction ops arbitrary: st) (simp_all add: record_stats_def onTime_iff)

lemma last_n_last_n_append: "last_n n (last_n n xs @ zs) = last_n n (xs @ zs)"
proof (cases "n \<le> length xs")
  case True
  then show ?thesis
    by (cases "length zs \<le> n") (simp_all add: last_n_def add.commute)
next
  case False
  then show ?thesis by (simp add: last_n_def)
qed

lemma foldl_record_recentCommits_aux:
  "recentCommits (foldl (record_stats H cap) st ops)
   = (if filter onTime ops = [] then recentCommits st
      else last_n cap (recentCommits st @ map seg_Commit (filter onTime ops)))"
proof (induction ops arbitrary: st)
  case Nil
  then show ?case by simp
next
  case (Cons r ops)
  show ?case
  proof (cases "onTime r")
    case True
    then have "recentCommits (record_stats H cap st r) = last_n cap (recentCommits st @ [seg_Commit r])"
      by (simp add: record_stats_def onTime_iff)
    moreover have "last_n cap (last_n cap (ys @ [y]) @ zs) = last_n cap (ys @ y # zs)"
      for ys zs :: "bytes list" and y
      using last_n_last_n_append [of cap "ys @ [y]" zs] by simp
    moreover have "last_n cap (last_n cap ys) = last_n cap ys" for ys :: "bytes list"
      using last_n_last_n_append [of cap ys "[]"] by simp
    ultimately show ?thesis
      using True by (simp add: Cons.IH)
  next
    case False
    then have "recentCommits (record_stats H cap st r) = recentCommits st"
      by (simp add: record_stats_def onTime_iff)
    with False show ?thesis
      by (simp add: Cons.IH)
  qed
qed

lemma stats_of_None: "perPath a p = None \<Longrightarrow> stats_of a p = zero_streamStats"
  by (simp add: stats_of_def)

lemma sint_word_of_nat_64: "n < 2 ^ 63 \<Longrightarrow> sint (word_of_nat n :: int64) = int n"
  by (simp add: signed_of_nat signed_take_bit_int_eq_self)

lemma word_of_int_sum_list_sint: "word_of_int (sum_list (map sint ws)) = (sum_list ws :: int64)"
  by (induction ws) simp_all

lemma sint_sum_list_64:
  assumes "- (2 ^ 63) \<le> sum_list (map sint ws)" and "sum_list (map sint ws) < 2 ^ 63"
  shows "sint (sum_list ws :: int64) = sum_list (map sint ws)"
proof -
  have "sint (word_of_int (sum_list (map sint ws)) :: int64) = sum_list (map sint ws)"
    using assms by (simp add: signed_of_int signed_take_bit_int_eq_self)
  then show ?thesis by (simp add: word_of_int_sum_list_sint)
qed


subsection \<open>Claims on the digest\<close>

text \<open>
  C1. For every receipt the digest has 32 bytes and is the hash \<open>H\<close> (SHA-256 in the program,
  whose output has 32 bytes) of exactly this concatenation: the tag
  \<^verbatim>\<open>SlowDrip:PoS-Receipt:v1\<close>, the version byte, the byte length of the path as a big-endian
  16-bit unsigned integer and the path bytes, the sequence number, the size, the deadline and
  the receive time as big-endian 64-bit integers, the commitment as it is, and the nonce as
  a big-endian 64-bit integer. Two receipts with the same values in these fields have the
  same digest.
\<close>

theorem digest_layout:
  "length (digest H r) = 32
   \<and> (length
        (H (bytes_of ''SlowDrip:PoS-Receipt:v1'' @ [Version r]
            @ be16 (word_of_nat (length (bytes_of (Path r)))) @ bytes_of (Path r)
            @ be64 (Seq r) @ be64 (Size r) @ be64 (Deadline r) @ be64 (Recv r)
            @ Commit r @ be64 (Nonce r))) = 32
      \<longrightarrow> digest H r =
          H (bytes_of ''SlowDrip:PoS-Receipt:v1'' @ [Version r]
             @ be16 (word_of_nat (length (bytes_of (Path r)))) @ bytes_of (Path r)
             @ be64 (Seq r) @ be64 (Size r) @ be64 (Deadline r) @ be64 (Recv r)
             @ Commit r @ be64 (Nonce r)))
   \<and> (Version r' = Version r \<and> Path r' = Path r \<and> Seq r' = Seq r \<and> Size r' = Size r
        \<and> Deadline r' = Deadline r \<and> Recv r' = Recv r \<and> Commit r' = Commit r
        \<and> Nonce r' = Nonce r
      \<longrightarrow> digest H r' = digest H r)"
  by (simp add: digest_def Sum_nil_def digest_hasher_preimage copy_into_same_length
      preimage_def DomainTag_def)

theorem digest_layout_witness:
  "length
     (ref_hash (bytes_of ''SlowDrip:PoS-Receipt:v1'' @ [Version ex_receipt]
        @ be16 (word_of_nat (length (bytes_of (Path ex_receipt)))) @ bytes_of (Path ex_receipt)
        @ be64 (Seq ex_receipt) @ be64 (Size ex_receipt) @ be64 (Deadline ex_receipt)
        @ be64 (Recv ex_receipt) @ Commit ex_receipt @ be64 (Nonce ex_receipt))) = 32
   \<and> digest ref_hash ex_receipt =
       ref_hash (bytes_of ''SlowDrip:PoS-Receipt:v1'' @ [Version ex_receipt]
        @ be16 (word_of_nat (length (bytes_of (Path ex_receipt)))) @ bytes_of (Path ex_receipt)
        @ be64 (Seq ex_receipt) @ be64 (Size ex_receipt) @ be64 (Deadline ex_receipt)
        @ be64 (Recv ex_receipt) @ Commit ex_receipt @ be64 (Nonce ex_receipt))
   \<and> Nonce (ex_receipt\<lparr>PubKey := ex_pub, Sig := replicate 64 9\<rparr>) = Nonce ex_receipt
   \<and> digest ref_hash (ex_receipt\<lparr>PubKey := ex_pub, Sig := replicate 64 9\<rparr>)
       = digest ref_hash ex_receipt"
  using digest_layout [of ref_hash ex_receipt "ex_receipt\<lparr>PubKey := ex_pub, Sig := replicate 64 9\<rparr>"]
  by simp

text \<open>
  C5. The encoding is unambiguous: two well-formed receipts that differ in one of the fields
  version, path, sequence number, size, deadline, receive time, commitment or nonce feed
  different byte strings to the hash, whatever the length of the paths.
\<close>

theorem digest_input_injective:
  assumes "wf_Receipt r1" and "wf_Receipt r2"
    and "(Version r1, Path r1, Seq r1, Size r1, Deadline r1, Recv r1, Commit r1, Nonce r1)
         \<noteq> (Version r2, Path r2, Seq r2, Size r2, Deadline r2, Recv r2, Commit r2, Nonce r2)"
  shows "digest_hasher r1 \<noteq> digest_hasher r2"
  using assms preimage_inj [of r1 r2]
  by (auto simp: wf_Receipt_def digest_hasher_preimage)

theorem digest_input_injective_witness:
  "wf_Receipt ex_receipt \<and> wf_Receipt (ex_receipt\<lparr>Path := ''live/strea'', Seq := 0x6D00000000000001\<rparr>)
   \<and> Path ex_receipt \<noteq> Path (ex_receipt\<lparr>Path := ''live/strea'', Seq := 0x6D00000000000001\<rparr>)
   \<and> digest_hasher ex_receipt
       \<noteq> digest_hasher (ex_receipt\<lparr>Path := ''live/strea'', Seq := 0x6D00000000000001\<rparr>)"
  using digest_input_injective
    [of ex_receipt "ex_receipt\<lparr>Path := ''live/strea'', Seq := 0x6D00000000000001\<rparr>"]
  by (simp add: wf_Receipt_def ex_receipt_def)


subsection \<open>Claims on signing\<close>




text \<open>
  C4. The claim is that \<open>Sign\<close> after \<open>Close\<close> fails with the error
  \<^verbatim>\<open>signer not initialized\<close>. \<open>Close\<close> overwrites the bytes of the private key and leaves
  the slice in place, and \<open>Sign\<close> tests the slice against \<^verbatim>\<open>nil\<close> only: on the closed
  example signer \<open>Sign\<close> returns no error and stores a signature made with the all-zero key.
\<close>

theorem Sign_after_Close_returns_nil:
  "NewSessionSigner (Inr (ex_pub, ex_priv)) 0 ''s1'' = Inr ex_signer
   \<and> Sign ref_hash ref_sign (Some (Close ex_signer)) ex_receipt
   = (ex_receipt\<lparr>PubKey := ex_pub,
        Sig := ref_sign (replicate 64 0) (digest ref_hash ex_receipt)\<rparr>, None)
   \<and> snd (Sign ref_hash ref_sign (Some (Close ex_signer)) ex_receipt)
       \<noteq> Some (Err ''signer not initialized'')
   \<and> priv (Close ex_signer) = Some (replicate 64 0)"
  using Sign_after_Close [of ex_signer ex_priv ex_pub ref_hash ref_sign ex_receipt]
  by (simp add: NewSessionSigner_def ex_signer_def ex_priv_def ex_pub_def PrivateKeySize_def
      Close_def wipe_replicate flip: replicate_add)


subsection \<open>Claims on the anchor\<close>

text \<open>
  C3. For a list of receipts with pairwise distinct (path, sequence) pairs and any
  permutation of it, \<open>AggregateAnchor\<close> returns the same anchor, for every sorting routine
  that leaves the slice sorted.
\<close>

theorem AggregateAnchor_permutation:
  assumes "sorts srt" and "distinct (map sort_key_of rs)" and "mset rs' = mset rs"
  shows "AggregateAnchor H srt rs' = AggregateAnchor H srt rs
         \<and> (\<exists>anchor. AggregateAnchor H srt rs = Some anchor)"
proof (cases "rs = []")
  case True
  with assms(3) show ?thesis by (simp add: AggregateAnchor_def)
next
  case False
  with assms(3) have ne: "rs' \<noteq> []" by auto
  from assms(1) have
    "mset (srt receipt_less rs') = mset rs'" "sorted (map sort_key_of (srt receipt_less rs'))"
    "mset (srt receipt_less rs) = mset rs" "sorted (map sort_key_of (srt receipt_less rs))"
    by (simp_all add: sorts_def flip: sorted_wrt_receipt_less)
  with assms(2,3) have "srt receipt_less rs' = srt receipt_less rs"
    by (intro sorted_perm_unique [of rs]) simp_all
  moreover obtain root where "MerkleRoot H (srt receipt_less rs) = Some root"
    using MerkleRoot_returns by blast
  ultimately show ?thesis
    using False ne by (simp add: AggregateAnchor_nonempty)
qed

theorem AggregateAnchor_permutation_witness:
  "sorts insertion_sort \<and> distinct (map sort_key_of [ex_a2, ex_b1])
   \<and> mset [ex_b1, ex_a2] = mset [ex_a2, ex_b1]
   \<and> AggregateAnchor ref_hash insertion_sort [ex_b1, ex_a2]
       = AggregateAnchor ref_hash insertion_sort [ex_a2, ex_b1]"
  using AggregateAnchor_permutation [of insertion_sort "[ex_a2, ex_b1]" "[ex_b1, ex_a2]" ref_hash]
    sorts_insertion_sort
  by (simp add: sort_key_of_def ex_a2_def ex_b1_def)

text \<open>
  C9, as amended. For a non-empty list of receipts \<open>AggregateAnchor\<close> returns the hex
  encoding of the Merkle root of the receipts sorted by (path, sequence) ascending; when the
  pairs are distinct that order is the one of \<open>sort_key\<close>. For the empty list it returns
  the empty string, although the Merkle root of the empty list is 32 zero bytes.
\<close>

theorem AggregateAnchor_root_of_sorted:
  assumes "sorts srt"
  shows "(rs = [] \<longrightarrow> AggregateAnchor H srt rs = Some '''' \<and> MerkleRoot H rs = Some (replicate 32 0))
    \<and> (rs \<noteq> [] \<longrightarrow>
         (\<exists>sorted_rs root.
            mset sorted_rs = mset rs \<and> sorted (map sort_key_of sorted_rs)
            \<and> MerkleRoot H sorted_rs = Some root
            \<and> AggregateAnchor H srt rs = Some (hex_EncodeToString root)))
    \<and> (rs \<noteq> [] \<and> distinct (map sort_key_of rs) \<longrightarrow>
         AggregateAnchor H srt rs
         = map_option hex_EncodeToString (MerkleRoot H (sort_key sort_key_of rs)))"
proof -
  from assms have p: "mset (srt receipt_less rs) = mset rs"
    and s: "sorted (map sort_key_of (srt receipt_less rs))"
    by (simp_all add: sorts_def flip: sorted_wrt_receipt_less)
  obtain root where root: "MerkleRoot H (srt receipt_less rs) = Some root"
    using MerkleRoot_returns by blast
  have "srt receipt_less rs = sort_key sort_key_of rs" if "distinct (map sort_key_of rs)"
    using that p s by (intro sorted_perm_unique [of rs]) simp_all
  with p s root show ?thesis
    by (auto simp: AggregateAnchor_nonempty AggregateAnchor_def MerkleRoot_Nil)
qed

theorem AggregateAnchor_root_of_sorted_witness:
  "sorts insertion_sort
   \<and> [ex_b1, ex_a2] \<noteq> [] \<and> distinct (map sort_key_of [ex_b1, ex_a2])
   \<and> sort_key sort_key_of [ex_b1, ex_a2] = [ex_a2, ex_b1]
   \<and> AggregateAnchor ref_hash insertion_sort [ex_b1, ex_a2]
       = map_option hex_EncodeToString (MerkleRoot ref_hash [ex_a2, ex_b1])
   \<and> AggregateAnchor ref_hash insertion_sort [] = Some ''''"
  using AggregateAnchor_root_of_sorted [of insertion_sort "[ex_b1, ex_a2]" ref_hash]
    AggregateAnchor_root_of_sorted [of insertion_sort "[]" ref_hash]
    sorts_insertion_sort
  by (simp add: sort_key_of_def ex_a2_def ex_b1_def)

text \<open>
  C9 as stated fails on the empty list: the anchor is the empty string, and the hex encoding
  of the root of the empty list is a string of 64 zeros.
\<close>

theorem AggregateAnchor_empty_counterexample:
  "AggregateAnchor ref_hash insertion_sort [] = Some ''''
   \<and> map_option hex_EncodeToString (MerkleRoot ref_hash (insertion_sort receipt_less []))
       = Some ''0000000000000000000000000000000000000000000000000000000000000000''
   \<and> AggregateAnchor ref_hash insertion_sort []
       \<noteq> map_option hex_EncodeToString (MerkleRoot ref_hash (insertion_sort receipt_less []))"
  by (simp add: AggregateAnchor_def MerkleRoot_def insertion_sort_def hex_EncodeToString_def
      hextable_def eval_nat_numeral)


subsection \<open>Claims on the QoS aggregator\<close>

text \<open>
  C6. Starting from an agent that has no stats for a path, after recording a sequence of
  observations the stats of the path hold the number of its on-time observations in
  \<open>Accepted\<close>, the number of its late observations in \<open>Late\<close>, and the sum of the sizes of
  its on-time observations in \<open>Bytes\<close>, in 64-bit arithmetic; read as signed integers the
  counters are the exact numbers as long as these fit into an \<^verbatim>\<open>int64\<close>.
\<close>

theorem add_all_counters:
  assumes "0 \<le> maxRecent a" and "perPath a p = None"
    and "ops = filter (\<lambda>r. seg_Path r = p) obs" and "ops \<noteq> []"
  shows "\<exists>a' st. add_all H a obs = Inr a' \<and> perPath a' p = Some st
     \<and> Accepted st = word_of_nat (length (filter onTime ops))
     \<and> Late st = word_of_nat (length (filter (\<lambda>r. \<not> onTime r) ops))
     \<and> Bytes st = sum_list (map seg_Size (filter onTime ops))
     \<and> (length ops < 2 ^ 63 \<longrightarrow>
          sint (Accepted st) = int (length (filter onTime ops))
          \<and> sint (Late st) = int (length (filter (\<lambda>r. \<not> onTime r) ops)))
     \<and> (- (2 ^ 63) \<le> (\<Sum>r\<leftarrow>filter onTime ops. sint (seg_Size r))
          \<and> (\<Sum>r\<leftarrow>filter onTime ops. sint (seg_Size r)) < 2 ^ 63 \<longrightarrow>
          sint (Bytes st) = (\<Sum>r\<leftarrow>filter onTime ops. sint (seg_Size r)))"
proof -
  define st where "st = foldl (record_stats H (nat (maxRecent a))) zero_streamStats ops"
  from add_all_refines [OF assms(1), of H obs p] assms(2-4)
  obtain a' where a': "add_all H a obs = Inr a'" "perPath a' p = Some st"
    by (auto simp: st_def stats_of_None)
  have acc: "Accepted st = word_of_nat (length (filter onTime ops))"
    and late: "Late st = word_of_nat (length (filter (\<lambda>r. \<not> onTime r) ops))"
    and bytes: "Bytes st = sum_list (map seg_Size (filter onTime ops))"
    by (simp_all add: st_def foldl_record_Accepted foldl_record_Late foldl_record_Bytes
        zero_streamStats_def)
  have le: "length (filter P ops) \<le> length ops" for P
    by simp
  have "sint (Accepted st) = int (length (filter onTime ops))"
       "sint (Late st) = int (length (filter (\<lambda>r. \<not> onTime r) ops))"
    if "length ops < 2 ^ 63"
    using that le [of onTime] le [of "\<lambda>r. \<not> onTime r"]
    by (simp_all add: acc late sint_word_of_nat_64 del: length_filter_le)
  moreover have "sint (Bytes st) = (\<Sum>r\<leftarrow>filter onTime ops. sint (seg_Size r))"
    if "- (2 ^ 63) \<le> (\<Sum>r\<leftarrow>filter onTime ops. sint (seg_Size r))"
      and "(\<Sum>r\<leftarrow>filter onTime ops. sint (seg_Size r)) < 2 ^ 63"
    using that sint_sum_list_64 [of "map seg_Size (filter onTime ops)"]
    by (simp add: bytes comp_def)
  ultimately show ?thesis
    using a' acc late bytes by blast
qed

theorem add_all_counters_witness:
  "0 \<le> maxRecent New \<and> perPath New ''live/stream'' = None
   \<and> filter (\<lambda>r. seg_Path r = ''live/stream'') ex_run
       = [ex_obs 5 (replicate 32 1), ex_obs 6 (replicate 32 2), ex_obs 3 (replicate 32 4)]
   \<and> (\<exists>a' st. add_all ref_hash New ex_run = Inr a' \<and> perPath a' ''live/stream'' = Some st
         \<and> Accepted st = 2 \<and> Late st = 1 \<and> Bytes st = 2000
         \<and> sint (Accepted st) = 2 \<and> sint (Late st) = 1 \<and> sint (Bytes st) = 2000)"
  using add_all_counters [of New "''live/stream''"
      "[ex_obs 5 (replicate 32 1), ex_obs 6 (replicate 32 2), ex_obs 3 (replicate 32 4)]"
      ex_run ref_hash]
  by (simp add: New_def ex_run_def ex_obs_def onTime_iff)

text \<open>
  C7. An observation received exactly at its deadline is on time and increments the
  accepted count; one received a nanosecond after the deadline is late and increments the
  late count.
\<close>

theorem classification_boundary:
  assumes "0 \<le> maxRecent a"
  shows "(seg_Recv r = seg_Deadline r \<longrightarrow>
           onTime r
           \<and> (\<exists>a' st. add H a r = Inr a' \<and> perPath a' (seg_Path r) = Some st
                \<and> Accepted st = Accepted (stats_of a (seg_Path r)) + 1
                \<and> Late st = Late (stats_of a (seg_Path r))))
       \<and> (seg_Recv r = seg_Deadline r + 1 \<longrightarrow>
           \<not> onTime r
           \<and> (\<exists>a' st. add H a r = Inr a' \<and> perPath a' (seg_Path r) = Some st
                \<and> Late st = Late (stats_of a (seg_Path r)) + 1
                \<and> Accepted st = Accepted (stats_of a (seg_Path r))))"
  by (simp add: add_refines [OF assms] onTime_iff record_stats_def)

theorem classification_boundary_witness:
  "0 \<le> maxRecent New
   \<and> seg_Recv (ex_obs 5 (replicate 32 1)) = seg_Deadline (ex_obs 5 (replicate 32 1))
   \<and> (\<exists>a' st. add ref_hash New (ex_obs 5 (replicate 32 1)) = Inr a' \<and> perPath a' ''live/stream'' = Some st
         \<and> Accepted st = 1 \<and> Late st = 0)
   \<and> seg_Recv (ex_obs 6 (replicate 32 1)) = seg_Deadline (ex_obs 6 (replicate 32 1)) + 1
   \<and> (\<exists>a' st. add ref_hash New (ex_obs 6 (replicate 32 1)) = Inr a' \<and> perPath a' ''live/stream'' = Some st
         \<and> Accepted st = 0 \<and> Late st = 1)"
  using classification_boundary [of New "ex_obs 5 (replicate 32 1)" ref_hash]
    classification_boundary [of New "ex_obs 6 (replicate 32 1)" ref_hash]
  by (auto simp: New_def ex_obs_def stats_of_def zero_streamStats_def)

text \<open>
  C8. Starting from an agent that has no stats for a path, after every recorded observation
  the ring of recent commitments of the path is no longer than the capacity \<open>maxRecent\<close>
  (64 in \<open>New\<close>) and holds the last \<open>maxRecent\<close> commitments of the on-time observations
  of the path in arrival order: all of them up to the capacity, exactly \<open>maxRecent\<close> beyond.
\<close>

theorem recentCommits_ring:
  assumes "0 \<le> maxRecent a" and "perPath a p = None"
    and "ops = filter (\<lambda>r. seg_Path r = p) obs" and "ops \<noteq> []"
    and "cs = map seg_Commit (filter onTime ops)"
  shows "\<exists>a' st. add_all H a obs = Inr a' \<and> perPath a' p = Some st
     \<and> length (recentCommits st) \<le> nat (maxRecent a)
     \<and> recentCommits st = drop (length cs - nat (maxRecent a)) cs
     \<and> (nat (maxRecent a) < length cs \<longrightarrow> length (recentCommits st) = nat (maxRecent a))"
proof -
  define st where "st = foldl (record_stats H (nat (maxRecent a))) zero_streamStats ops"
  from add_all_refines [OF assms(1), of H obs p] assms(2-4)
  obtain a' where a': "add_all H a obs = Inr a'" "perPath a' p = Some st"
    by (auto simp: st_def stats_of_None)
  have "recentCommits st = drop (length cs - nat (maxRecent a)) cs"
    by (simp add: st_def foldl_record_recentCommits_aux zero_streamStats_def last_n_def assms(5))
  with a' show ?thesis by auto
qed

theorem recentCommits_ring_witness:
  "0 \<le> maxRecent New \<and> nat (maxRecent New) = 64 \<and> perPath New ''live/stream'' = None
   \<and> filter (\<lambda>r. seg_Path r = ''live/stream'') ex_many = ex_many \<and> ex_many \<noteq> []
   \<and> length (map seg_Commit (filter onTime ex_many)) = 65
   \<and> (\<exists>a' st. add_all ref_hash New ex_many = Inr a' \<and> perPath a' ''live/stream'' = Some st
         \<and> length (recentCommits st) = 64
         \<and> recentCommits st = map (\<lambda>i. replicate 32 (word_of_nat i)) [1..<65])"
  using recentCommits_ring [of New "''live/stream''" ex_many ex_many
      "map seg_Commit (filter onTime ex_many)" ref_hash]
  by (auto simp: New_def ex_many_def ex_obs_def onTime_iff comp_def filter_map drop_map)

text \<open>
  C10. While \<^verbatim>\<open>defaultAgent\<close> is \<^verbatim>\<open>nil\<close>, as it is until \<open>Start\<close> has run, \<open>AddReceipt\<close>
  returns normally for every observation and leaves the package state as it was.
\<close>

theorem AddReceipt_uninitialized:
  "AddReceipt H (g\<lparr>defaultAgent := None\<rparr>) r = Inr (g\<lparr>defaultAgent := None\<rparr>)
   \<and> AddReceipt H init_Globals r = Inr init_Globals"
  by (simp add: AddReceipt_def init_Globals_def)

end
